theory Spec2Isabelle
  imports Main "HOL-Library.Sublist" "HOL-Library.Char_ord" "HOL-Library.List_Lexorder"
begin

section \<open>Text primitives of the Python runtime\<close>

text \<open>
  A Python \<open>str\<close> is modelled as a \<open>string\<close>, each \<open>char\<close> read as a code point
  (one below 256). \<open>is_space\<close> is \<open>str.isspace\<close> on these code points: it is what
  \<open>str.strip()\<close> removes and what the class \<open>\s\<close> of \<open>re\<close> matches on a \<open>str\<close> pattern,
  the no-break space (160) and the next-line character (133) among them. The class
  \<open>\w\<close> and \<open>str.lower\<close> are those of Python 3 for code points below 128; statements
  that depend on them are made for ASCII text.
\<close>

definition is_ascii :: "string \<Rightarrow> bool" where
  "is_ascii s = (\<forall>c \<in> set s. (of_char c :: nat) < 128)"

definition is_space :: "char \<Rightarrow> bool" where
  "is_space c = (let n = (of_char c :: nat) in
     (9 \<le> n \<and> n \<le> 13) \<or> (28 \<le> n \<and> n \<le> 32) \<or> n = 133 \<or> n = 160)"

definition is_word :: "char \<Rightarrow> bool" where
  "is_word c = (let n = (of_char c :: nat) in
     (48 \<le> n \<and> n \<le> 57) \<or> (65 \<le> n \<and> n \<le> 90) \<or> n = 95 \<or> (97 \<le> n \<and> n \<le> 122))"

definition lower_char :: "char \<Rightarrow> char" where
  "lower_char c = (let n = (of_char c :: nat) in if 65 \<le> n \<and> n \<le> 90 then char_of (n + 32) else c)"

definition lower :: "string \<Rightarrow> string" where
  "lower s = map lower_char s"

text \<open>\<open>s.strip()\<close>: leading and trailing whitespace removed.\<close>

definition strip :: "string \<Rightarrow> string" where
  "strip s = rev (dropWhile is_space (rev (dropWhile is_space s)))"

text \<open>\<open>s.strip(chars)\<close>: leading and trailing characters of \<open>chars\<close> removed.\<close>

definition strip_chars :: "string \<Rightarrow> string \<Rightarrow> string" where
  "strip_chars chars s =
     rev (dropWhile (\<lambda>c. c \<in> set chars) (rev (dropWhile (\<lambda>c. c \<in> set chars) s)))"

text \<open>\<open>sub in s\<close> on strings.\<close>

fun str_in :: "string \<Rightarrow> string \<Rightarrow> bool" where
  "str_in sub [] = (sub = [])"
| "str_in sub (c # cs) = (prefix sub (c # cs) \<or> str_in sub cs)"

text \<open>
  \<open>s.replace(old, new)\<close>: the occurrences of \<open>old\<close> are replaced from left to right
  without overlap; an empty \<open>old\<close> matches before every character and at the end.
\<close>

function replace_from :: "string \<Rightarrow> string \<Rightarrow> string \<Rightarrow> string" where
  "replace_from old new [] = []"
| "replace_from old new (c # cs) =
     (if old \<noteq> [] \<and> prefix old (c # cs)
      then new @ replace_from old new (drop (length old) (c # cs))
      else c # replace_from old new cs)"
  by pat_completeness auto
termination
  by (relation "measure (\<lambda>(old, new, s). length s)") auto

definition replace :: "string \<Rightarrow> string \<Rightarrow> string \<Rightarrow> string" where
  "replace s old new =
     (if old = [] then new @ concat (map (\<lambda>c. c # new) s) else replace_from old new s)"

text \<open>\<open>sep.join(xs)\<close>.\<close>

fun join :: "string \<Rightarrow> string list \<Rightarrow> string" where
  "join sep [] = []"
| "join sep [x] = x"
| "join sep (x # y # ys) = x @ sep @ join sep (y # ys)"

text \<open>\<open>'  ' * n\<close>, and \<open>range(a, b, -1)\<close> as the list it runs through.\<close>

definition spaces_of :: "nat \<Rightarrow> string" where
  "spaces_of n = concat (replicate n ''  '')"

definition range_down :: "nat \<Rightarrow> nat \<Rightarrow> nat list" where
  "range_down a b = rev [Suc b ..< Suc a]"

text \<open>\<open>os.path.basename\<close> and \<open>os.path.join\<close> of two components, as \<open>posixpath\<close> has them.\<close>

definition basename :: "string \<Rightarrow> string" where
  "basename p = rev (takeWhile (\<lambda>c. c \<noteq> CHR ''/'') (rev p))"

definition os_path_join :: "string \<Rightarrow> string \<Rightarrow> string" where
  "os_path_join a b =
     (if prefix ''/'' b then b
      else if a = [] \<or> suffix ''/'' a then a @ b
      else a @ ''/'' @ b)"

definition nl :: string where
  "nl = [CHR 0x0A]"

section \<open>SummaryInfo and SummaryMap\<close>

record SummaryInfo =
  summary_name :: string
  default_group_name :: string
  group_name :: string
  subheads :: "string list"

definition new_SummaryInfo :: "string \<Rightarrow> SummaryInfo" where
  "new_SummaryInfo name =
     \<lparr>summary_name = name, default_group_name = ''Ungrouped'',
      group_name = ''Ungrouped'', subheads = []\<rparr>"

text \<open>
  The dictionary read from the JSON file, as the list of its items in the order of the
  file: a group name with the list of the summary names of the group. A dictionary
  holds a key once; \<open>defs.get\<close> is the lookup in this list.
\<close>

type_synonym defs = "(string \<times> string list) list"

fun get_group_for_summary :: "defs \<Rightarrow> string \<Rightarrow> string option" where
  "get_group_for_summary [] name = None"
| "get_group_for_summary ((key, val) # rest) name =
     (if name \<in> set val then Some key else get_group_for_summary rest name)"

definition get_summarys_for_group :: "defs \<Rightarrow> string \<Rightarrow> string list option" where
  "get_summarys_for_group ds g = map_of ds g"

text \<open>\<open>urljoin\<close> and \<open>first\<close>.\<close>

definition urljoin :: "string list \<Rightarrow> string" where
  "urljoin args =
     (let trailing_slash = (if suffix ''/'' (last args) then ''/'' else '''')
      in join ''/'' (map (strip_chars ''/'') args) @ trailing_slash)"

definition first :: "'a list \<Rightarrow> 'a option" where
  "first iterable = (case iterable of [] \<Rightarrow> None | item # _ \<Rightarrow> Some item)"

section \<open>Finding the files and their headings\<close>

text \<open>
  \<open>os.walk\<close> is given by what it yields: the list of \<open>(root, files)\<close> pairs. A file
  is given as the list of lines that iterating over it yields.
\<close>

definition get_markdown_files :: "(string \<times> string list) list \<Rightarrow> string list" where
  "get_markdown_files walked =
     concat (map (\<lambda>(root, files).
       map (os_path_join root) (filter (\<lambda>file. suffix ''.md'' file) files)) walked)"

type_synonym headings = "string option \<times> (nat \<times> string) list"

definition heading_line :: "string \<Rightarrow> headings \<Rightarrow> headings" where
  "heading_line raw st =
     (case st of (main_heading, subheadings) \<Rightarrow>
       let line = strip raw;
           m = takeWhile (\<lambda>c. c = CHR ''#'') line
       in if m \<noteq> [] then
            (let indent = length m in
             if indent = 1 then (Some (drop (indent + 1) line), subheadings)
             else if indent > 1 then
               (let offset = indent + 1 in (main_heading, subheadings @ [(indent, drop offset line)]))
             else (main_heading, subheadings))
          else (main_heading, subheadings))"

fun heading_lines :: "string list \<Rightarrow> headings \<Rightarrow> headings" where
  "heading_lines [] st = st"
| "heading_lines (raw # rest) st = heading_lines rest (heading_line raw st)"

definition extract_headings :: "string \<Rightarrow> string list \<Rightarrow> string \<times> (nat \<times> string) list" where
  "extract_headings file_path file =
     (case heading_lines file (None, []) of (main_heading, subheadings) \<Rightarrow>
        (case main_heading of
           None \<Rightarrow> (basename (replace file_path ''.md'' ''''), subheadings)
         | Some h \<Rightarrow>
             if h = [] then (basename (replace file_path ''.md'' ''''), subheadings)
             else (h, subheadings)))"

definition create_anchor :: "string \<Rightarrow> string" where
  "create_anchor text =
     replace (lower (strip (filter (\<lambda>c. is_word c \<or> is_space c \<or> c = CHR ''-'') text))) '' '' ''-''"

section \<open>The command line and the environment\<close>

text \<open>
  What the program asks of the operating system is a parameter of the model: whether a
  path is a directory, whether the output file can be opened, what \<open>json.load\<close> makes
  of the file at a path, what \<open>os.walk\<close> yields, the lines of a file, and
  \<open>os.path.relpath\<close>.
\<close>

text \<open>
  What \<open>process_args\<close> finds at the path given with \<open>-s\<close>: no file; a file on which
  \<open>json.load\<close> raises \<open>JSONDecodeError\<close>; a file that \<open>open\<close> or \<open>json.load\<close> fails on with
  another exception (it cannot be read, or it is not UTF-8), which no handler catches;
  or a file that holds a dictionary.
\<close>

datatype json_file = NotAFile | JSONDecodeError string | Unreadable string | Loaded defs

record os_env =
  isdir :: "string \<Rightarrow> bool"
  can_open :: "string \<Rightarrow> bool"
  json_at :: "string \<Rightarrow> json_file"
  walk :: "string \<Rightarrow> (string \<times> string list) list"
  lines_of :: "string \<Rightarrow> string list"
  relpath :: "string \<Rightarrow> string \<Rightarrow> string"

record args =
  summaryDef :: "string option"
  outputFile :: string
  markdownFolder :: string
  reposName :: string

record globals =
  directory_path :: string
  output_file :: string
  base_url :: string
  summary_map :: "defs option"

text \<open>The ways the program ends early: \<open>parser.error\<close>, or an exception nothing catches.\<close>

datatype exit = ParserError string | Uncaught string

text \<open>The part of \<open>process_args\<close> that sets \<open>summary_map\<close>, with the lines it prints.\<close>

definition load_summary_map ::
  "os_env \<Rightarrow> string option \<Rightarrow> exit + (defs option \<times> string list)" where
  "load_summary_map env sd =
     (case sd of
        None \<Rightarrow> Inr (None, [])
      | Some d \<Rightarrow>
          (let fname = strip d in
           case json_at env fname of
             NotAFile \<Rightarrow>
               Inr (None,
                 [''error: Could not find json file  '' @ fname @ '' . Files will not be grouped.''])
           | JSONDecodeError de \<Rightarrow> Inr (None, [''Invalid JSON syntax:  '' @ de])
           | Unreadable e \<Rightarrow> Inl (Uncaught e)
           | Loaded ds \<Rightarrow> Inr (Some ds, [])))"

text \<open>The result of \<open>process_args\<close>: the globals it sets and the lines it prints.\<close>

definition process_args :: "os_env \<Rightarrow> args \<Rightarrow> exit + (globals \<times> string list)" where
  "process_args env a =
     (let dir = markdownFolder a in
      if \<not> isdir env dir
      then Inl (ParserError (''error: could not find input file directory: '' @ dir))
      else
        (let out = strip (outputFile a) in
         if \<not> can_open env out
         then Inl (ParserError (''could not open output file '' @ out))
         else
           (case load_summary_map env (summaryDef a) of
              Inl e \<Rightarrow> Inl e
            | Inr (sm, printed) \<Rightarrow>
                Inr (\<lparr>directory_path = dir, output_file = out,
                       base_url = urljoin [''https://github.com/'', reposName a, ''/wiki/''],
                       summary_map = sm\<rparr>, printed))))"

section \<open>The sidebar\<close>

text \<open>
  The body of the loop over the subheadings. The state is \<open>prior_indent\<close>, \<open>spaces\<close>
  and the list \<open>summary.subheads\<close> the loop appends to.
\<close>

definition list_item :: "string \<Rightarrow> string \<Rightarrow> string \<Rightarrow> string" where
  \<open>list_item spaces base_href subheading_anchor =
     (let anchor = create_anchor (strip subheading_anchor);
          link = base_href @ ''#'' @ anchor
      in spaces @ ''<li><a href="'' @ link @ ''">'' @ strip subheading_anchor @ ''</a></li>'')\<close>

definition subheading_step ::
  "string \<Rightarrow> nat \<times> string \<Rightarrow> nat \<times> string \<times> string list \<Rightarrow> nat \<times> string \<times> string list" where
  "subheading_step base_href entry st =
     (case entry of (indent_level, subheading_anchor) \<Rightarrow>
      case st of (prior_indent, spaces, sh) \<Rightarrow>
        let st' =
              (if indent_level > prior_indent then
                 (indent_level, spaces_of (indent_level + 1),
                  sh @ [spaces_of indent_level @ ''<ul>''])
               else if indent_level < prior_indent then
                 (indent_level, spaces_of indent_level,
                  sh @ map (\<lambda>count. spaces_of count @ ''</ul>'') (range_down prior_indent indent_level))
               else (prior_indent, spaces, sh))
        in case st' of (prior_indent', spaces', sh') \<Rightarrow>
          (prior_indent', spaces', sh' @ [list_item spaces' base_href subheading_anchor]))"

fun subheading_loop ::
  "string \<Rightarrow> (nat \<times> string) list \<Rightarrow> nat \<times> string \<times> string list \<Rightarrow> nat \<times> string \<times> string list" where
  "subheading_loop base_href [] st = st"
| "subheading_loop base_href (entry # rest) st =
     subheading_loop base_href rest (subheading_step base_href entry st)"

text \<open>The list \<open>summary.subheads\<close> of one file, once its loop iteration is over.\<close>

definition summary_line :: "string \<Rightarrow> string \<Rightarrow> string" where
  \<open>summary_line base_href main_heading =
     ''<details><summary><a href="'' @ base_href @ ''">'' @ main_heading @ ''</a></summary>''\<close>

definition render_subheads :: "string \<Rightarrow> string \<Rightarrow> (nat \<times> string) list \<Rightarrow> string list" where
  "render_subheads base_href main_heading subheadings =
     (let sh0 = [summary_line base_href main_heading]
      in if subheadings = [] then sh0 @ [''</details>'', nl]
         else
           (case subheading_loop base_href subheadings (2, spaces_of 2, sh0 @ [''  <ul>'']) of
              (prior_indent, spaces, sh) \<Rightarrow>
                sh @ map (\<lambda>count. spaces_of (count - 1) @ ''</ul>'')
                       (range_down (fst (last subheadings)) 1)
                   @ [''</details>'', nl]))"

definition build_summary :: "os_env \<Rightarrow> globals \<Rightarrow> string \<Rightarrow> SummaryInfo" where
  "build_summary env gl md_file =
     (case extract_headings md_file (lines_of env md_file) of (main_heading, subheadings) \<Rightarrow>
        let relative_path = relpath env md_file (directory_path gl);
            summary = new_SummaryInfo main_heading;
            relative_url = replace relative_path ''.md'' '''';
            base_href = base_url gl @ relative_url
        in summary\<lparr>subheads := render_subheads base_href main_heading subheadings\<rparr>)"

fun summary_loop :: "os_env \<Rightarrow> globals \<Rightarrow> string list \<Rightarrow> SummaryInfo list" where
  "summary_loop env gl [] = []"
| "summary_loop env gl (md_file # rest) =
     (if str_in ''sidebar.md'' (lower md_file) then summary_loop env gl rest
      else build_summary env gl md_file # summary_loop env gl rest)"

text \<open>
  With a summary map: the group names, the groups in the order of the JSON file, and
  the summaries left with the default group name. The result is the list of the strings
  written to the output file, in the order of the calls of \<open>sidebar.write\<close>.
\<close>

definition set_group :: "defs \<Rightarrow> SummaryInfo \<Rightarrow> SummaryInfo" where
  "set_group ds s =
     (case get_group_for_summary ds (summary_name s) of
        None \<Rightarrow> s
      | Some g \<Rightarrow> s\<lparr>group_name := g\<rparr>)"

definition write_item :: "SummaryInfo list \<Rightarrow> string \<Rightarrow> string list" where
  "write_item summary_list item =
     (case first (filter (\<lambda>x. summary_name x = item) summary_list) of
        None \<Rightarrow> []
      | Some sec \<Rightarrow> [join nl (subheads sec)])"

definition write_group :: "defs \<Rightarrow> SummaryInfo list \<Rightarrow> string \<Rightarrow> string list" where
  "write_group ds summary_list g =
     (case get_summarys_for_group ds g of
        None \<Rightarrow> []
      | Some summarys \<Rightarrow> (''## '' @ g @ nl) # concat (map (write_item summary_list) summarys))"

definition write_groups :: "defs \<Rightarrow> SummaryInfo list \<Rightarrow> string list" where
  "write_groups ds summary_list = concat (map (write_group ds summary_list) (map fst ds))"

fun write_ungrouped :: "SummaryInfo list \<Rightarrow> bool \<Rightarrow> string list" where
  "write_ungrouped [] ungrouped_header_done = []"
| "write_ungrouped (s # rest) ungrouped_header_done =
     (if group_name s = default_group_name s then
        (if \<not> ungrouped_header_done then [''## '' @ group_name s @ nl] else [])
        @ [join nl (subheads s)] @ write_ungrouped rest True
      else write_ungrouped rest ungrouped_header_done)"

text \<open>
  \<open>generate_sidebar\<close>: the list \<open>summary_list\<close> its first loop builds, then what it
  writes to the output file and what it prints.
\<close>

definition summary_list :: "os_env \<Rightarrow> globals \<Rightarrow> SummaryInfo list" where
  "summary_list env gl =
     (let markdown_files = get_markdown_files (walk env (directory_path gl))
      in summary_loop env gl (sort markdown_files))"

definition generate_sidebar :: "os_env \<Rightarrow> globals \<Rightarrow> string list \<times> string list" where
  "generate_sidebar env gl =
     (let written =
            (case summary_map gl of
               Some ds \<Rightarrow>
                 (let grouped = map (set_group ds) (summary_list env gl)
                  in write_groups ds grouped @ write_ungrouped grouped False)
             | None \<Rightarrow> map (\<lambda>s. join nl (subheads s)) (summary_list env gl))
      in (written, [''Sidebar generated: '' @ output_file gl]))"

text \<open>
  The program: \<open>process_args()\<close>, then \<open>generate_sidebar()\<close>. The result is what
  is written to the output file and what is printed, or the exit of the parser.
\<close>

definition main :: "os_env \<Rightarrow> args \<Rightarrow> exit + (string list \<times> string list)" where
  "main env a =
     (case process_args env a of
        Inl e \<Rightarrow> Inl e
      | Inr (gl, printed) \<Rightarrow>
          (case generate_sidebar env gl of (written, printed') \<Rightarrow> Inr (written, printed @ printed')))"


section \<open>List markers\<close>

text \<open>
  A line of \<open>summary.subheads\<close> is an opening list marker when it is \<open><ul>\<close> after its
  indentation, and a closing list marker when it is \<open></ul>\<close> after its indentation.
\<close>

definition unindent :: "string \<Rightarrow> string" where
  "unindent l = dropWhile (\<lambda>c. c = CHR '' '') l"

definition is_open :: "string \<Rightarrow> bool" where
  "is_open l = (unindent l = ''<ul>'')"

definition is_close :: "string \<Rightarrow> bool" where
  "is_close l = (unindent l = ''</ul>'')"

definition opens :: "string list \<Rightarrow> nat" where
  "opens ls = length (filter is_open ls)"

definition closes :: "string list \<Rightarrow> nat" where
  "closes ls = length (filter is_close ls)"

section \<open>Notions the statements use\<close>

text \<open>
  The number of \<open>#\<close> the match of \<open>^#+\<close> holds on the stripped line (0 when there is no
  match), and the text \<open>extract_headings\<close> records for a heading line.
\<close>

definition marker_count :: "string \<Rightarrow> nat" where
  "marker_count raw = length (takeWhile (\<lambda>c. c = CHR ''#'') (strip raw))"

definition heading_text :: "string \<Rightarrow> string" where
  "heading_text raw = drop (marker_count raw + 1) (strip raw)"

text \<open>A line that starts with markers, with no space right after them.\<close>

definition no_space_after_markers :: "string \<Rightarrow> bool" where
  "no_space_after_markers raw =
     (0 < marker_count raw \<and> take 1 (drop (marker_count raw) (strip raw)) \<noteq> '' '')"

text \<open>
  The characters \<open>re.sub\<close> keeps in \<open>create_anchor\<close>, the text left after the trim, and
  the characters an anchor is made of: lower-case letters, digits, the underscore, the
  hyphen, and the whitespace characters other than the space.
\<close>

definition kept :: "char \<Rightarrow> bool" where
  "kept c = (is_word c \<or> is_space c \<or> c = CHR ''-'')"

definition trimmed :: "string \<Rightarrow> string" where
  "trimmed text = strip (filter kept text)"

definition anchor_char :: "char \<Rightarrow> bool" where
  "anchor_char c = (let n = (of_char c :: nat) in
     (97 \<le> n \<and> n \<le> 122) \<or> (48 \<le> n \<and> n \<le> 57) \<or> n = 95 \<or> n = 45
     \<or> (9 \<le> n \<and> n \<le> 13) \<or> (28 \<le> n \<and> n \<le> 31))"

text \<open>A string written to the output file is a group header when it starts with \<open>## \<close>.\<close>

definition is_group_header :: "string \<Rightarrow> bool" where
  "is_group_header w = prefix ''## '' w"

definition group_header :: "string \<Rightarrow> string" where
  "group_header g = ''## '' @ g @ nl"

text \<open>The test of \<open>generate_sidebar\<close> that skips a file.\<close>

definition skipped :: "string \<Rightarrow> bool" where
  "skipped md_file = str_in ''sidebar.md'' (lower md_file)"

section \<open>An example wiki\<close>

text \<open>
  A folder \<open>wiki\<close> with the pages \<open>A.md\<close> and \<open>B.md\<close>, the sidebar of an earlier run and
  a page whose name ends in \<open>Sidebar.md\<close>; a JSON file that holds one group, named
  \<open>Ungrouped\<close>, a JSON file that does not parse, and a JSON file that is not UTF-8.
\<close>

definition wiki_env :: os_env where
  "wiki_env =
     \<lparr>isdir = (\<lambda>d. d = ''wiki''),
      can_open = (\<lambda>f. True),
      json_at = (\<lambda>f. if f = ''groups.json'' then Loaded [(''Ungrouped'', [''A''])]
                     else if f = ''broken.json'' then JSONDecodeError ''Expecting value''
                     else if f = ''latin1.json'' then Unreadable ''UnicodeDecodeError''
                     else NotAFile),
      walk = (\<lambda>d. if d = ''wiki''
                  then [(''wiki'', [''B.md'', ''A.md'', ''_Sidebar.md'', ''Custom-Sidebar.md''])]
                  else []),
      lines_of = (\<lambda>f. if f = ''wiki/A.md'' then [''# A'', ''## Intro'']
                      else if f = ''wiki/B.md'' then [''# B'']
                      else []),
      relpath = (\<lambda>f d. drop (length d + 1) f)\<rparr>"

definition wiki_args :: "string option \<Rightarrow> args" where
  "wiki_args sd =
     \<lparr>summaryDef = sd, outputFile = ''_Sidebar.md'', markdownFolder = ''wiki'',
      reposName = ''u/r''\<rparr>"

definition wiki_globals :: "defs option \<Rightarrow> globals" where
  "wiki_globals sm =
     \<lparr>directory_path = ''wiki'', output_file = ''_Sidebar.md'',
      base_url = ''https://github.com/u/r/wiki/'', summary_map = sm\<rparr>"

section \<open>Steps of the depth\<close>

text \<open>
  Along a list of depths, starting from the depth \<open>p\<close>: the number of steps to a deeper
  level, the sum of the sizes of these steps, and whether one of them skips a level.
\<close>

fun ups :: "nat \<Rightarrow> nat list \<Rightarrow> nat" where
  "ups p [] = 0"
| "ups p (d # ds) = (if p < d then 1 else 0) + ups d ds"

fun rise :: "nat \<Rightarrow> nat list \<Rightarrow> nat" where
  "rise p [] = 0"
| "rise p (d # ds) = (if p < d then d - p else 0) + rise d ds"

fun skips_level :: "nat \<Rightarrow> nat list \<Rightarrow> bool" where
  "skips_level p [] = False"
| "skips_level p (d # ds) = (p + 1 < d \<or> skips_level d ds)"

section \<open>Markers in the lines of a summary\<close>

lemma unindent_spaces_of [simp]: "unindent (spaces_of n @ CHR ''<'' # r) = CHR ''<'' # r"
  by (induction n) (simp_all add: unindent_def spaces_of_def)

lemma unindent_less [simp]: "unindent (CHR ''<'' # r) = CHR ''<'' # r"
  by (simp add: unindent_def)

lemma marker_lines [simp]:
  "is_open (spaces_of n @ ''<ul>'')" "\<not> is_close (spaces_of n @ ''<ul>'')"
  "is_close (spaces_of n @ ''</ul>'')" "\<not> is_open (spaces_of n @ ''</ul>'')"
  "is_open ''  <ul>''" "\<not> is_close ''  <ul>''"
  by (simp_all add: is_open_def is_close_def) (simp_all add: unindent_def)

lemma other_lines [simp]:
  "\<not> is_open (list_item (spaces_of n) h t)" "\<not> is_close (list_item (spaces_of n) h t)"
  "\<not> is_open (summary_line h m)" "\<not> is_close (summary_line h m)"
  "\<not> is_open ''</details>''" "\<not> is_close ''</details>''"
  "\<not> is_open nl" "\<not> is_close nl"
  by (simp_all add: is_open_def is_close_def list_item_def summary_line_def nl_def)
     (simp_all add: unindent_def)

lemma opens_append [simp]: "opens (xs @ ys) = opens xs + opens ys"
  by (simp add: opens_def)

lemma closes_append [simp]: "closes (xs @ ys) = closes xs + closes ys"
  by (simp add: closes_def)

lemma opens_Cons [simp]: "opens (x # xs) = (if is_open x then 1 else 0) + opens xs"
  by (simp add: opens_def)

lemma closes_Cons [simp]: "closes (x # xs) = (if is_close x then 1 else 0) + closes xs"
  by (simp add: closes_def)

lemma opens_Nil [simp]: "opens [] = 0"
  by (simp add: opens_def)

lemma closes_Nil [simp]: "closes [] = 0"
  by (simp add: closes_def)

lemma closing_lines [simp]:
  "opens (map (\<lambda>count. spaces_of (f count) @ ''</ul>'') ns) = 0"
  "closes (map (\<lambda>count. spaces_of (f count) @ ''</ul>'') ns) = length ns"
  by (induction ns) simp_all

lemma length_range_down [simp]: "length (range_down a b) = a - b"
  by (simp add: range_down_def del: upt_Suc)

section \<open>The transitions of the loop over the subheadings\<close>

lemma step_up:
  "prior < d \<Longrightarrow>
   subheading_step h (d, t) (prior, sp, sh) =
     (d, spaces_of (d + 1), sh @ [spaces_of d @ ''<ul>'', list_item (spaces_of (d + 1)) h t])"
  by (simp add: subheading_step_def)

lemma step_down:
  "d < prior \<Longrightarrow>
   subheading_step h (d, t) (prior, sp, sh) =
     (d, spaces_of d,
      sh @ map (\<lambda>count. spaces_of count @ ''</ul>'') (range_down prior d) @ [list_item (spaces_of d) h t])"
  by (simp add: subheading_step_def)

lemma step_same:
  "subheading_step h (d, t) (d, sp, sh) = (d, sp, sh @ [list_item sp h t])"
  by (simp add: subheading_step_def)

text \<open>
  C1 (balanced nesting) fails on the code: a subheading two or more levels below the
  level before it opens one list, and the levels are closed one by one afterwards.
  For the single subheading \<open>#### t\<close> the lines of the summary hold two opening
  markers and three closing markers.
\<close>

theorem unbalanced_after_jump:
  "opens (render_subheads h m [(4, t)]) = 2 \<and> closes (render_subheads h m [(4, t)]) = 3"
  by (simp add: render_subheads_def step_up)

text \<open>
  C2 (depth jumps): for the depths 2, 4, 2 the lines of the summary are the ones below,
  with one opening marker between the first and the second item and two closing markers
  between the second and the third. In general a step to a deeper level appends one
  opening marker and no closing marker, whatever the size of the jump, and a step from
  \<open>p\<close> up to a level \<open>d\<close> above it appends \<open>p - d\<close> closing markers and no opening one.
\<close>

theorem depth_jump_markers:
  "render_subheads h m [(2, a), (4, b), (2, c)] =
     [summary_line h m, ''  <ul>'',
      list_item (spaces_of 2) h a,
      spaces_of 4 @ ''<ul>'',
      list_item (spaces_of 5) h b,
      spaces_of 4 @ ''</ul>'', spaces_of 3 @ ''</ul>'',
      list_item (spaces_of 2) h c,
      spaces_of 1 @ ''</ul>'', ''</details>'', nl]
   \<and> (p < d \<longrightarrow>
        (case subheading_step h (d, t) (p, sp, sh) of (p', sp', sh') \<Rightarrow>
           p' = d \<and> opens sh' = opens sh + 1 \<and> closes sh' = closes sh))
   \<and> (e < q \<longrightarrow>
        (case subheading_step h (e, t) (q, sp, sh) of (q', sp', sh') \<Rightarrow>
           q' = e \<and> closes sh' = closes sh + (q - e) \<and> opens sh' = opens sh))"
proof (intro conjI impI)
  show "render_subheads h m [(2, a), (4, b), (2, c)] =
     [summary_line h m, ''  <ul>'',
      list_item (spaces_of 2) h a,
      spaces_of 4 @ ''<ul>'',
      list_item (spaces_of 5) h b,
      spaces_of 4 @ ''</ul>'', spaces_of 3 @ ''</ul>'',
      list_item (spaces_of 2) h c,
      spaces_of 1 @ ''</ul>'', ''</details>'', nl]"
    by (simp add: render_subheads_def step_up step_down step_same range_down_def upt_rec)
next
  assume "p < d"
  then show "case subheading_step h (d, t) (p, sp, sh) of (p', sp', sh') \<Rightarrow>
           p' = d \<and> opens sh' = opens sh + 1 \<and> closes sh' = closes sh"
    by (simp add: step_up)
next
  assume "e < q"
  then show "case subheading_step h (e, t) (q, sp, sh) of (q', sp', sh') \<Rightarrow>
           q' = e \<and> closes sh' = closes sh + (q - e) \<and> opens sh' = opens sh"
    by (simp add: step_down)
qed

theorem depth_jump_markers_witness:
  "(2::nat) < 4
   \<and> (case subheading_step ''u'' (4, ''b'') (2, spaces_of 2, [''  <ul>'']) of (p', sp', sh') \<Rightarrow>
         p' = 4 \<and> opens sh' = opens [''  <ul>''] + 1 \<and> closes sh' = closes [''  <ul>''])
   \<and> (case subheading_step ''u'' (2, ''b'') (4, spaces_of 2, [''  <ul>'']) of (q', sp', sh') \<Rightarrow>
         q' = 2 \<and> closes sh' = closes [''  <ul>''] + (4 - 2) \<and> opens sh' = opens [''  <ul>''])"
  using depth_jump_markers [where h = "''u''" and p = 2 and d = 4 and t = "''b''"
      and sp = "spaces_of 2" and sh = "[''  <ul>'']" and e = 2 and q = 4]
  by simp

section \<open>The headings of a file\<close>

lemma heading_lines_append:
  "heading_lines (xs @ ys) st = heading_lines ys (heading_lines xs st)"
  by (induction xs arbitrary: st) simp_all

lemma heading_line_title:
  "marker_count raw = 1 \<Longrightarrow> heading_line raw (mh, subs) = (Some (heading_text raw), subs)"
  by (auto simp: heading_line_def marker_count_def heading_text_def Let_def)

lemma heading_line_sub:
  "2 \<le> marker_count raw \<Longrightarrow>
   heading_line raw (mh, subs) = (mh, subs @ [(marker_count raw, heading_text raw)])"
  by (auto simp: heading_line_def marker_count_def heading_text_def Let_def)

lemma heading_line_other: "marker_count raw = 0 \<Longrightarrow> heading_line raw st = st"
  by (cases st) (auto simp: heading_line_def marker_count_def Let_def)

lemma heading_line_keeps_title: "marker_count raw \<noteq> 1 \<Longrightarrow> fst (heading_line raw st) = fst st"
  by (cases st) (auto simp: heading_line_def marker_count_def Let_def)

lemma heading_lines_keep_title:
  "\<forall>r \<in> set rs. marker_count r \<noteq> 1 \<Longrightarrow> fst (heading_lines rs st) = fst st"
  by (induction rs arbitrary: st) (simp_all add: heading_line_keeps_title)

text \<open>
  C3 (first title wins) fails on the code: every line with one marker overwrites
  \<open>main_heading\<close>, so of two such lines the second gives the title.
\<close>

theorem first_title_line_overwritten:
  "fst (extract_headings ''notes.md'' [''# First'', ''# Second'']) = ''Second''
   \<and> fst (extract_headings ''notes.md'' [''# First'', ''# Second'']) \<noteq> ''First''"
  by (simp add: extract_headings_def heading_line_def strip_def is_space_def)

text \<open>
  C3 as amended: the title is the text of the last line with one marker, when that text
  is not empty; the lines with one marker before it do not change the title.
\<close>

theorem last_title_line_wins:
  assumes "marker_count raw = 1" and "heading_text raw \<noteq> []"
    and "\<forall>r \<in> set rest. marker_count r \<noteq> 1"
  shows "fst (extract_headings file_path (before @ raw # rest)) = heading_text raw"
proof -
  obtain mh subs where st: "heading_lines before (None, []) = (mh, subs)"
    by (cases "heading_lines before (None, [])")
  have "fst (heading_lines (before @ raw # rest) (None, [])) = Some (heading_text raw)"
    using assms(1,3)
    by (simp add: heading_lines_append st heading_line_title heading_lines_keep_title)
  then show ?thesis
    using assms(2) by (auto simp: extract_headings_def split: prod.splits option.splits)
qed

theorem last_title_line_wins_witness:
  "marker_count ''# Second'' = 1 \<and> heading_text ''# Second'' \<noteq> []
   \<and> marker_count ''## Sub'' \<noteq> 1 \<and> marker_count ''text'' \<noteq> 1
   \<and> fst (extract_headings ''notes.md'' ([''# First''] @ ''# Second'' # [''## Sub'', ''text'']))
       = heading_text ''# Second''"
proof -
  have m: "marker_count ''# Second'' = 1"
    by (simp add: marker_count_def strip_def is_space_def)
  have t: "heading_text ''# Second'' \<noteq> []"
    by (simp add: heading_text_def m) (simp add: strip_def is_space_def)
  have r: "\<forall>r \<in> set [''## Sub'', ''text'']. marker_count r \<noteq> 1"
    by (simp add: marker_count_def strip_def is_space_def)
  from last_title_line_wins [OF m t r, of "''notes.md''" "[''# First'']"] m t r
  show ?thesis by simp
qed

text \<open>
  A title line whose text is whitespace alone, the no-break space included, has an empty
  text after the strip and leaves the title to the name of the file; a line that starts
  with the next-line character before its marker is a title line.
\<close>

lemma blank_title_line_falls_back:
  "extract_headings ''notes.md'' [''# First'', [CHR ''#'', CHR '' '', CHR 0xA0]] = (''notes'', [])
   \<and> heading_text [CHR ''#'', CHR '' '', CHR 0xA0] = []
   \<and> marker_count [CHR 0x85, CHR ''#'', CHR '' '', CHR ''X''] = 1"
  by code_simp

text \<open>
  C4 (a marker with no space is no heading) fails on the code: the lines \<open>#NoSpace\<close>
  and \<open>##NoSpace\<close> set the title and add a subheading, where a file without them has
  the name of the file as title and no subheading.
\<close>

theorem unspaced_marker_counterexample:
  "extract_headings ''notes.md'' [''#NoSpace'', ''##NoSpace''] = (''oSpace'', [(2, ''oSpace'')])
   \<and> extract_headings ''notes.md'' [] = (''notes'', [])"
  by (simp add: extract_headings_def heading_line_def strip_def is_space_def replace_def
      basename_def)

text \<open>
  C4 as amended: a line that starts with markers and has no space after them is taken
  as a heading of the depth its markers give: with one marker it sets the title
  variable, with two or more it adds one entry of that depth to the subheadings.
\<close>

theorem unspaced_marker_is_heading:
  "no_space_after_markers raw \<longrightarrow>
     (marker_count raw = 1 \<longrightarrow> (\<exists>t. heading_line raw (mh, subs) = (Some t, subs)))
   \<and> (2 \<le> marker_count raw \<longrightarrow>
        (\<exists>t. heading_line raw (mh, subs) = (mh, subs @ [(marker_count raw, t)])))"
  by (simp add: heading_line_title heading_line_sub)

theorem unspaced_marker_is_heading_witness:
  "no_space_after_markers ''##NoSpace'' \<and> 2 \<le> marker_count ''##NoSpace''
   \<and> (\<exists>t. heading_line ''##NoSpace'' (None, []) = (None, [] @ [(marker_count ''##NoSpace'', t)]))"
proof -
  have m: "marker_count ''##NoSpace'' = 2"
    by (simp add: marker_count_def strip_def is_space_def)
  have n: "no_space_after_markers ''##NoSpace''"
    by (simp add: no_space_after_markers_def m) (simp add: strip_def is_space_def)
  from unspaced_marker_is_heading [of "''##NoSpace''" None "[]"] n m show ?thesis
    by simp
qed

text \<open>
  C6 (title from the file name) fails on the code: the fallback removes every
  \<open>.md\<close> of the path, not the extension alone. The file \<open>wiki/howto.mdx.md\<close> without a
  title line gets the title \<open>howtox\<close>, where its name without the extension is
  \<open>howto.mdx\<close>.
\<close>

theorem fallback_title_strips_inner_md:
  "extract_headings ''wiki/howto.mdx.md'' [''## Install''] = (''howtox'', [(2, ''Install'')])"
  by (simp add: extract_headings_def heading_line_def strip_def is_space_def replace_def
      basename_def)

section \<open>Anchors\<close>

lemma replace_from_char: "replace_from [x] [y] s = map (\<lambda>c. if c = x then y else c) s"
  by (induction s) auto

lemma last_dropWhile: "dropWhile P xs \<noteq> [] \<Longrightarrow> last (dropWhile P xs) = last xs"
  by (induction xs) (auto split: if_splits)

lemma strip_edges:
  assumes "strip s \<noteq> []"
  shows "\<not> is_space (hd (strip s))" and "\<not> is_space (last (strip s))"
proof -
  let ?t = "dropWhile is_space s"
  let ?u = "dropWhile is_space (rev ?t)"
  from assms have u: "?u \<noteq> []" by (simp add: strip_def)
  then have t: "?t \<noteq> []" by (cases "dropWhile is_space s") simp_all
  have "last (strip s) = hd ?u" by (simp add: strip_def last_rev)
  then show "\<not> is_space (last (strip s))" using u hd_dropWhile [of is_space "rev ?t"] by simp
  have "hd (strip s) = last ?u" using u by (simp add: strip_def hd_rev)
  also have "\<dots> = last (rev ?t)" using u by (rule last_dropWhile)
  also have "\<dots> = hd ?t" using t by (simp add: last_rev)
  finally show "\<not> is_space (hd (strip s))" using t hd_dropWhile [of is_space s] by simp
qed

lemma set_strip: "set (strip s) \<subseteq> set s"
proof
  fix c assume "c \<in> set (strip s)"
  then have "c \<in> set (dropWhile is_space (rev (dropWhile is_space s)))"
    by (simp add: strip_def)
  then have "c \<in> set (rev (dropWhile is_space s))" by (rule set_dropWhileD)
  then have "c \<in> set (dropWhile is_space s)" by simp
  then show "c \<in> set s" by (rule set_dropWhileD)
qed

lemma create_anchor_map:
  "create_anchor text = map (\<lambda>c. if c = CHR '' '' then CHR ''-'' else c) (lower (trimmed text))"
  by (simp add: create_anchor_def replace_def replace_from_char trimmed_def kept_def [abs_def])

lemma space_code: "(of_char c :: nat) = 32 \<longleftrightarrow> c = CHR '' ''"
  using of_char_eq_iff [of c "CHR '' ''", where ?'a = nat] by simp

lemma hyphen_code: "(of_char c :: nat) = 45 \<longleftrightarrow> c = CHR ''-''"
  using of_char_eq_iff [of c "CHR ''-''", where ?'a = nat] by simp

lemma of_char_lower_char:
  "(of_char (lower_char c) :: nat) =
     (if 65 \<le> (of_char c :: nat) \<and> (of_char c :: nat) \<le> 90 then of_char c + 32 else of_char c)"
  by (simp add: lower_char_def Let_def)

lemma lower_char_kept:
  "kept c \<Longrightarrow> (of_char c :: nat) < 128 \<Longrightarrow> c \<noteq> CHR '' '' \<Longrightarrow> anchor_char (lower_char c)"
  using space_code [of c]
  by (auto simp: kept_def is_word_def is_space_def anchor_char_def of_char_lower_char Let_def)

lemma lower_char_space: "lower_char c = CHR '' '' \<longleftrightarrow> c = CHR '' ''"
  using space_code [of c] space_code [of "lower_char c"]
  by (auto simp: of_char_lower_char split: if_splits)

lemma lower_char_hyphen: "lower_char c = CHR ''-'' \<longleftrightarrow> c = CHR ''-''"
  using hyphen_code [of c] hyphen_code [of "lower_char c"]
  by (auto simp: of_char_lower_char split: if_splits)

lemma anchor_char_hyphen: "anchor_char (CHR ''-'')"
  by (simp add: anchor_char_def)

text \<open>
  C5 (shape of an anchor) fails on the code: the underscore is a word character and
  stays, and each space becomes a hyphen of its own, so two spaces give two hyphens.
\<close>

theorem anchor_keeps_underscore_and_runs:
  "create_anchor ''a_b  c'' = ''a_b--c'' \<and> CHR ''_'' \<in> set (create_anchor ''a_b  c'')"
  by (simp add: create_anchor_def replace_def lower_def lower_char_def strip_def is_space_def
      is_word_def)

text \<open>
  C5 as amended, for ASCII text: an anchor holds lower-case letters, digits,
  underscores, hyphens and whitespace other than the space; it is the trimmed text in
  lower case with each space replaced by one hyphen; and a hyphen at its start or at its
  end is a hyphen of the trimmed text, never a replaced space.
\<close>

theorem create_anchor_shape:
  "is_ascii text \<longrightarrow>
     (\<forall>c \<in> set (create_anchor text). anchor_char c)
   \<and> create_anchor text =
       map (\<lambda>c. if c = CHR '' '' then CHR ''-'' else c) (lower (trimmed text))
   \<and> (create_anchor text \<noteq> [] \<longrightarrow>
        (hd (create_anchor text) = CHR ''-'' \<longleftrightarrow> hd (trimmed text) = CHR ''-'')
      \<and> (last (create_anchor text) = CHR ''-'' \<longleftrightarrow> last (trimmed text) = CHR ''-''))"
proof (intro impI conjI ballI)
  show eq: "create_anchor text =
       map (\<lambda>c. if c = CHR '' '' then CHR ''-'' else c) (lower (trimmed text))"
    by (rule create_anchor_map)
  have kept: "kept c \<and> c \<in> set text" if "c \<in> set (trimmed text)" for c
    using that set_strip [of "filter kept text"] by (auto simp: trimmed_def)
  fix c assume a: "is_ascii text" and "c \<in> set (create_anchor text)"
  then obtain d where d: "d \<in> set (trimmed text)"
    and c: "c = (if lower_char d = CHR '' '' then CHR ''-'' else lower_char d)"
    by (auto simp: eq lower_def)
  from kept [OF d] a have "kept d" and "(of_char d :: nat) < 128"
    by (auto simp: is_ascii_def)
  then show "anchor_char c"
    using c by (auto simp: lower_char_space lower_char_kept anchor_char_hyphen)
next
  assume ne: "create_anchor text \<noteq> []"
  then have t: "trimmed text \<noteq> []" by (auto simp: create_anchor_map lower_def)
  then have edges: "\<not> is_space (hd (trimmed text))" "\<not> is_space (last (trimmed text))"
    unfolding trimmed_def by (rule strip_edges)+
  have sp: "is_space (CHR '' '')" by (simp add: is_space_def)
  from edges sp have nsp: "hd (trimmed text) \<noteq> CHR '' ''" "last (trimmed text) \<noteq> CHR '' ''"
    by auto
  show "hd (create_anchor text) = CHR ''-'' \<longleftrightarrow> hd (trimmed text) = CHR ''-''"
    using t nsp(1)
    by (simp add: create_anchor_map lower_def hd_map lower_char_space lower_char_hyphen)
  show "last (create_anchor text) = CHR ''-'' \<longleftrightarrow> last (trimmed text) = CHR ''-''"
    using t nsp(2)
    by (simp add: create_anchor_map lower_def last_map lower_char_space lower_char_hyphen)
qed

theorem create_anchor_shape_witness:
  "is_ascii ''Hello, World!'' \<and> create_anchor ''Hello, World!'' \<noteq> []
   \<and> list_all anchor_char (create_anchor ''Hello, World!'')
   \<and> (hd (create_anchor ''Hello, World!'') = CHR ''-''
        \<longleftrightarrow> hd (trimmed ''Hello, World!'') = CHR ''-'')"
proof -
  have a: "is_ascii ''Hello, World!''" by code_simp
  have n: "create_anchor ''Hello, World!'' \<noteq> []" by code_simp
  from create_anchor_shape [of "''Hello, World!''"] a n show ?thesis
    unfolding list_all_iff by blast
qed

section \<open>The files that are skipped\<close>

lemma summary_loop_filter:
  "summary_loop env gl fs = map (build_summary env gl) (filter (\<lambda>f. \<not> skipped f) fs)"
  by (induction fs) (simp_all add: skipped_def)

lemma str_in_iff: "str_in sub s \<longleftrightarrow> (\<exists>pre post. s = pre @ sub @ post)"
proof (induction s)
  case Nil
  show ?case by auto
next
  case (Cons c cs)
  show ?case
  proof
    assume "str_in sub (c # cs)"
    then consider "prefix sub (c # cs)" | "str_in sub cs" by auto
    then show "\<exists>pre post. c # cs = pre @ sub @ post"
    proof cases
      case 1
      then obtain post where "c # cs = sub @ post" by (auto simp: prefix_def)
      then have "c # cs = [] @ sub @ post" by simp
      then show ?thesis by blast
    next
      case 2
      with Cons.IH obtain pre post where "cs = pre @ sub @ post" by auto
      then have "c # cs = (c # pre) @ sub @ post" by simp
      then show ?thesis by blast
    qed
  next
    assume "\<exists>pre post. c # cs = pre @ sub @ post"
    then obtain pre post where eq: "c # cs = pre @ sub @ post" by auto
    show "str_in sub (c # cs)"
    proof (cases pre)
      case Nil
      with eq have "prefix sub (c # cs)" by (simp add: prefix_def)
      then show ?thesis by simp
    next
      case (Cons p pre')
      with eq have "cs = pre' @ sub @ post" by simp
      with Cons.IH have "str_in sub cs" by blast
      then show ?thesis by simp
    qed
  qed
qed

lemma map_eq_infix:
  assumes "map f xs = p @ m @ q"
  shows "\<exists>pre name post. xs = pre @ name @ post \<and> map f name = m"
proof -
  let ?name = "take (length m) (drop (length p) xs)"
  have "map f ?name = take (length m) (drop (length p) (map f xs))"
    by (simp add: take_map drop_map)
  also have "\<dots> = m" by (simp add: assms)
  finally have "map f ?name = m" .
  moreover have "xs = take (length p) xs @ ?name @ drop (length m) (drop (length p) xs)"
    by (simp only: append_take_drop_id)
  ultimately show ?thesis by blast
qed

lemma skipped_iff:
  "skipped f \<longleftrightarrow> (\<exists>pre name post. f = pre @ name @ post \<and> lower name = ''sidebar.md'')"
proof
  assume "skipped f"
  then obtain p q where "map lower_char f = p @ ''sidebar.md'' @ q"
    unfolding skipped_def str_in_iff lower_def by blast
  then show "\<exists>pre name post. f = pre @ name @ post \<and> lower name = ''sidebar.md''"
    unfolding lower_def by (rule map_eq_infix)
next
  assume "\<exists>pre name post. f = pre @ name @ post \<and> lower name = ''sidebar.md''"
  then obtain pre name post where "f = pre @ name @ post" and "lower name = ''sidebar.md''"
    by auto
  then have "lower f = lower pre @ ''sidebar.md'' @ lower post" by (simp add: lower_def)
  then show "skipped f" unfolding skipped_def str_in_iff by blast
qed

text \<open>
  C9 (only the output file is left out) fails on the code: the page
  \<open>wiki/Custom-Sidebar.md\<close> is left out although the output file is \<open>_Sidebar.md\<close>.
\<close>

theorem other_sidebar_page_skipped:
  "summary_loop wiki_env (wiki_globals None) [''wiki/Custom-Sidebar.md''] = []
   \<and> lower (basename ''wiki/Custom-Sidebar.md'') \<noteq> lower (basename (output_file (wiki_globals None)))"
  by code_simp

text \<open>
  C9 as amended: the loop builds one summary for each file that is not skipped, in the
  order of the files, and for an ASCII path a file is skipped exactly when its path
  holds, in any letter case, the text \<open>sidebar.md\<close>.
\<close>

theorem skip_rule:
  "summary_loop env gl fs = map (build_summary env gl) (filter (\<lambda>f. \<not> skipped f) fs)
   \<and> (is_ascii f \<longrightarrow>
        (skipped f \<longleftrightarrow> (\<exists>pre name post. f = pre @ name @ post \<and> lower name = ''sidebar.md'')))"
  using summary_loop_filter skipped_iff by blast

theorem skip_rule_witness:
  "is_ascii ''wiki/_SideBar.md'' \<and> skipped ''wiki/_SideBar.md''
   \<and> (\<exists>pre name post. ''wiki/_SideBar.md'' = pre @ name @ post \<and> lower name = ''sidebar.md'')"
proof -
  have a: "is_ascii ''wiki/_SideBar.md''" by code_simp
  have s: "skipped ''wiki/_SideBar.md''" by code_simp
  from skip_rule [of _ _ "[]" "''wiki/_SideBar.md''"] a s show ?thesis by blast
qed

section \<open>What is written to the output file\<close>

lemma subheading_step_extends:
  "\<exists>ext. snd (snd (subheading_step h e st)) = snd (snd st) @ ext"
  by (cases e; cases st) (auto simp: subheading_step_def)

lemma subheading_loop_extends:
  "\<exists>ext. snd (snd (subheading_loop h es st)) = snd (snd st) @ ext"
proof (induction es arbitrary: st)
  case Nil
  show ?case by simp
next
  case (Cons e es)
  from Cons.IH [of "subheading_step h e st"] subheading_step_extends [of h e st]
  show ?case by auto
qed

lemma render_subheads_head: "\<exists>rest. render_subheads h m subs = summary_line h m # rest"
proof (cases "subs = []")
  case True
  then show ?thesis by (simp add: render_subheads_def)
next
  case False
  obtain p sp sh where l: "subheading_loop h subs (2, spaces_of 2, [summary_line h m, ''  <ul>'']) = (p, sp, sh)"
    by (cases "subheading_loop h subs (2, spaces_of 2, [summary_line h m, ''  <ul>''])")
  from subheading_loop_extends [of h subs "(2, spaces_of 2, [summary_line h m, ''  <ul>''])"] l
  obtain ext where "sh = [summary_line h m, ''  <ul>''] @ ext" by auto
  with False l show ?thesis by (simp add: render_subheads_def)
qed

lemma join_head: "\<exists>r. join sep (x # xs) = x @ r"
  by (cases xs) simp_all

lemma block_not_header: "\<not> is_group_header (join nl (render_subheads h m subs))"
proof -
  from render_subheads_head obtain rest where "render_subheads h m subs = summary_line h m # rest"
    by blast
  moreover from join_head obtain r where "join nl (summary_line h m # rest) = summary_line h m @ r"
    by blast
  ultimately show ?thesis by (simp add: is_group_header_def summary_line_def)
qed

lemma group_header_is_header [simp]: "is_group_header (group_header g)"
  by (simp add: is_group_header_def group_header_def)

lemma build_summary_fields:
  "default_group_name (build_summary env gl f) = ''Ungrouped''"
  "group_name (build_summary env gl f) = ''Ungrouped''"
  "\<not> is_group_header (join nl (subheads (build_summary env gl f)))"
  by (auto simp: build_summary_def new_SummaryInfo_def Let_def block_not_header split: prod.splits)

lemma set_group_fields [simp]:
  "default_group_name (set_group ds s) = default_group_name s"
  "subheads (set_group ds s) = subheads s"
  "summary_name (set_group ds s) = summary_name s"
  by (simp_all add: set_group_def split: option.splits)


lemma first_in_set: "first xs = Some x \<Longrightarrow> x \<in> set xs"
  by (cases xs) (simp_all add: first_def)

lemma write_item_cases:
  "write_item sl item = [] \<or> (\<exists>sec \<in> set sl. summary_name sec = item \<and> write_item sl item = [join nl (subheads sec)])"
proof (cases "first (filter (\<lambda>x. summary_name x = item) sl)")
  case None
  then show ?thesis by (simp add: write_item_def)
next
  case (Some sec)
  then have "sec \<in> set (filter (\<lambda>x. summary_name x = item) sl)" by (rule first_in_set)
  with Some show ?thesis by (auto simp: write_item_def)
qed

lemma write_item_no_header:
  assumes "\<forall>s \<in> set sl. \<not> is_group_header (join nl (subheads s))"
  shows "\<forall>b \<in> set (write_item sl item). \<not> is_group_header b"
  using write_item_cases [of sl item] assms by auto

lemma write_item_unmatched:
  "item \<notin> summary_name ` set sl \<Longrightarrow> write_item sl item = []"
  using write_item_cases [of sl item] by auto

lemma write_group_shape:
  assumes "g \<in> set (map fst ds)"
    and "\<forall>s \<in> set sl. \<not> is_group_header (join nl (subheads s))"
  shows "\<exists>blocks. write_group ds sl g = group_header g # blocks
           \<and> (\<forall>b \<in> set blocks. \<not> is_group_header b)"
proof -
  from assms(1) obtain members where m: "map_of ds g = Some members"
    by (cases "map_of ds g") (auto simp: map_of_eq_None_iff)
  have "\<forall>b \<in> set (concat (map (write_item sl) members)). \<not> is_group_header b"
    using write_item_no_header [OF assms(2)] by auto
  with m show ?thesis
    by (simp add: write_group_def get_summarys_for_group_def group_header_def)
qed

lemma write_group_headers:
  assumes "g \<in> set (map fst ds)"
    and "\<forall>s \<in> set sl. \<not> is_group_header (join nl (subheads s))"
  shows "filter is_group_header (write_group ds sl g) = [group_header g]"
proof -
  from write_group_shape [OF assms] obtain blocks
    where "write_group ds sl g = group_header g # blocks"
      and "\<forall>b \<in> set blocks. \<not> is_group_header b" by blast
  then show ?thesis by (simp add: filter_empty_conv)
qed

lemma write_groups_headers_aux:
  assumes "set ks \<subseteq> set (map fst ds)"
    and "\<forall>s \<in> set sl. \<not> is_group_header (join nl (subheads s))"
  shows "filter is_group_header (concat (map (write_group ds sl) ks)) = map group_header ks"
  using assms(1)
proof (induction ks)
  case Nil
  show ?case by simp
next
  case (Cons k ks)
  then have "k \<in> set (map fst ds)" by simp
  from write_group_headers [OF this assms(2)] Cons show ?case by simp
qed

lemma write_group_unmatched:
  assumes "map_of ds g = Some members" and "\<forall>m \<in> set members. m \<notin> summary_name ` set sl"
  shows "write_group ds sl g = [group_header g]"
proof -
  have "concat (map (write_item sl) members) = []"
    using assms(2) by (simp add: write_item_unmatched)
  with assms(1) show ?thesis
    by (simp add: write_group_def get_summarys_for_group_def group_header_def)
qed

lemma summary_list_blocks:
  "\<forall>s \<in> set (map (set_group ds) (summary_list env gl)). \<not> is_group_header (join nl (subheads s))"
  by (auto simp: summary_list_def summary_loop_filter build_summary_fields)

text \<open>
  C10 (a header for every group of the map): with a summary map, what is written is the
  sections of the groups in the order of the map, then the summaries left without a
  group; the group headers in the sections are those of the group names, one each and in
  the order of the map; and the section of a group none of whose members is the title of
  a summary is its header alone.
\<close>

theorem declared_groups_get_headers:
  fixes env gl ds
  defines "sl \<equiv> map (set_group ds) (summary_list env gl)"
  assumes "summary_map gl = Some ds"
  shows "fst (generate_sidebar env gl) =
           concat (map (write_group ds sl) (map fst ds)) @ write_ungrouped sl False
       \<and> filter is_group_header (concat (map (write_group ds sl) (map fst ds)))
           = map group_header (map fst ds)
       \<and> (\<forall>g members. map_of ds g = Some members
              \<and> (\<forall>m \<in> set members. m \<notin> summary_name ` set sl)
            \<longrightarrow> write_group ds sl g = [group_header g])"
proof (intro conjI allI impI)
  show "fst (generate_sidebar env gl) =
           concat (map (write_group ds sl) (map fst ds)) @ write_ungrouped sl False"
    using assms(2) by (simp add: generate_sidebar_def write_groups_def sl_def Let_def)
  show "filter is_group_header (concat (map (write_group ds sl) (map fst ds)))
           = map group_header (map fst ds)"
    unfolding sl_def by (rule write_groups_headers_aux [OF subset_refl summary_list_blocks])
  fix g members
  assume "map_of ds g = Some members \<and> (\<forall>m \<in> set members. m \<notin> summary_name ` set sl)"
  then show "write_group ds sl g = [group_header g]"
    by (simp add: write_group_unmatched)
qed


theorem declared_groups_get_headers_witness:
  "summary_map (wiki_globals (Some [(''Guide'', [''A'']), (''Later'', [''Missing''])]))
     = Some [(''Guide'', [''A'']), (''Later'', [''Missing''])]
   \<and> map_of [(''Guide'', [''A'']), (''Later'', [''Missing''])] ''Later'' = Some [''Missing'']
   \<and> ''Missing'' \<notin> summary_name ` set (map (set_group [(''Guide'', [''A'']), (''Later'', [''Missing''])])
           (summary_list wiki_env
              (wiki_globals (Some [(''Guide'', [''A'']), (''Later'', [''Missing''])]))))
   \<and> write_group [(''Guide'', [''A'']), (''Later'', [''Missing''])]
        (map (set_group [(''Guide'', [''A'']), (''Later'', [''Missing''])])
           (summary_list wiki_env
              (wiki_globals (Some [(''Guide'', [''A'']), (''Later'', [''Missing''])]))))
        ''Later'' = [group_header ''Later'']"
proof -
  let ?ds = "[(''Guide'', [''A'']), (''Later'', [''Missing''])]"
  have a: "summary_map (wiki_globals (Some ?ds)) = Some ?ds"
    by (simp add: wiki_globals_def)
  have b: "map_of ?ds ''Later'' = Some [''Missing'']" by simp
  have c: "\<forall>m \<in> set [''Missing''].
         m \<notin> summary_name ` set (map (set_group ?ds) (summary_list wiki_env (wiki_globals (Some ?ds))))"
    by code_simp
  from declared_groups_get_headers [where gl = "wiki_globals (Some ?ds)" and ds = ?ds
      and env = wiki_env, OF a] b c
  show ?thesis using a by simp
qed

lemma written_without_map:
  "summary_map gl = None \<Longrightarrow>
   generate_sidebar env gl =
     (map (\<lambda>f. join nl (subheads (build_summary env gl f)))
        (filter (\<lambda>f. \<not> skipped f) (sort (get_markdown_files (walk env (directory_path gl))))),
      [''Sidebar generated: '' @ output_file gl])"
  by (simp add: generate_sidebar_def summary_list_def summary_loop_filter Let_def comp_def)

text \<open>
  When the path given with \<open>-s\<close> is not a file, or \<open>json.load\<close> raises
  \<open>JSONDecodeError\<close> on it, \<open>process_args\<close> prints the line that says so and leaves
  \<open>summary_map\<close> unset; the program then writes what it writes when no \<open>-s\<close> is
  given: the summaries of the files that are not skipped, in sorted order, and no
  group header.
\<close>

lemma missing_or_invalid_map:
  assumes "isdir env (markdownFolder a)" and "can_open env (strip (outputFile a))"
    and "summaryDef a = Some d"
    and "json_at env (strip d) = NotAFile
           \<and> report = ''error: Could not find json file  '' @ strip d
                        @ '' . Files will not be grouped.''
         \<or> (\<exists>de. json_at env (strip d) = JSONDecodeError de
                \<and> report = ''Invalid JSON syntax:  '' @ de)"
  shows "\<exists>gl written.
           process_args env a = Inr (gl, [report]) \<and> summary_map gl = None
         \<and> written =
             map (\<lambda>f. join nl (subheads (build_summary env gl f)))
               (filter (\<lambda>f. \<not> skipped f)
                  (sort (get_markdown_files (walk env (markdownFolder a)))))
         \<and> main env a = Inr (written, [report, ''Sidebar generated: '' @ output_file gl])
         \<and> main env (a\<lparr>summaryDef := None\<rparr>) =
             Inr (written, [''Sidebar generated: '' @ output_file gl])
         \<and> (\<forall>w \<in> set written. \<not> is_group_header w)"
proof -
  let ?gl = "\<lparr>directory_path = markdownFolder a, output_file = strip (outputFile a),
              base_url = urljoin [''https://github.com/'', reposName a, ''/wiki/''],
              summary_map = None\<rparr>"
  let ?written = "map (\<lambda>f. join nl (subheads (build_summary env ?gl f)))
               (filter (\<lambda>f. \<not> skipped f)
                  (sort (get_markdown_files (walk env (markdownFolder a)))))"
  have l: "load_summary_map env (Some d) = Inr (None, [report])"
    using assms(4) by (auto simp: load_summary_map_def Let_def)
  have p: "process_args env a = Inr (?gl, [report])"
    using assms(1,2,3) l by (simp add: process_args_def Let_def)
  have p': "process_args env (a\<lparr>summaryDef := None\<rparr>) = Inr (?gl, [])"
    using assms(1,2) by (simp add: process_args_def load_summary_map_def Let_def)
  have g: "generate_sidebar env ?gl = (?written, [''Sidebar generated: '' @ output_file ?gl])"
    using written_without_map [of ?gl env] by simp
  have m: "main env a = Inr (?written, [report, ''Sidebar generated: '' @ output_file ?gl])"
    by (simp add: main_def p g)
  have m': "main env (a\<lparr>summaryDef := None\<rparr>) =
      Inr (?written, [''Sidebar generated: '' @ output_file ?gl])"
    by (simp add: main_def p' g)
  have h: "\<forall>w \<in> set ?written. \<not> is_group_header w"
    by (auto simp: build_summary_fields)
  have s: "summary_map ?gl = None" by simp
  from p s m m' h show ?thesis by blast
qed

lemma missing_or_invalid_map_example:
  "main wiki_env (wiki_args (Some ''broken.json'')) =
       Inr ([join nl (render_subheads ''https://github.com/u/r/wiki/A'' ''A'' [(2, ''Intro'')]),
             join nl (render_subheads ''https://github.com/u/r/wiki/B'' ''B'' [])],
            [''Invalid JSON syntax:  Expecting value'', ''Sidebar generated: _Sidebar.md''])
   \<and> main wiki_env (wiki_args (Some ''nowhere.json'')) =
       Inr ([join nl (render_subheads ''https://github.com/u/r/wiki/A'' ''A'' [(2, ''Intro'')]),
             join nl (render_subheads ''https://github.com/u/r/wiki/B'' ''B'' [])],
            [''error: Could not find json file  nowhere.json . Files will not be grouped.'',
             ''Sidebar generated: _Sidebar.md''])"
  by code_simp

text \<open>
  C8 (a summary map that cannot be parsed) fails on the code for a file that is present
  and is not UTF-8: \<open>json.load\<close> raises \<open>UnicodeDecodeError\<close>, the handler in
  \<open>process_args\<close> catches \<open>JSONDecodeError\<close> alone, and the run ends there with nothing
  reported and nothing written, where the run without \<open>-s\<close> writes the summaries of
  the two pages.
\<close>

theorem undecodable_map_ends_the_run:
  "main wiki_env (wiki_args (Some ''latin1.json'')) = Inl (Uncaught ''UnicodeDecodeError'')
   \<and> main wiki_env (wiki_args None) =
       Inr ([join nl (render_subheads ''https://github.com/u/r/wiki/A'' ''A'' [(2, ''Intro'')]),
             join nl (render_subheads ''https://github.com/u/r/wiki/B'' ''B'' [])],
            [''Sidebar generated: _Sidebar.md''])"
  by code_simp

text \<open>
  C7 (the summaries without a group) fails on the code when the map declares a group
  with the default name. With the group \<open>Ungrouped\<close> holding \<open>A\<close>, and the pages
  \<open>A\<close> and \<open>B\<close>, the header \<open>## Ungrouped\<close> is written twice, and the
  final section holds \<open>A\<close>, which has a group, besides \<open>B\<close>, which has none.
\<close>

theorem declared_ungrouped_is_written_twice:
  "main wiki_env (wiki_args (Some ''groups.json'')) =
     Inr ([group_header ''Ungrouped'',
           join nl (render_subheads ''https://github.com/u/r/wiki/A'' ''A'' [(2, ''Intro'')]),
           group_header ''Ungrouped'',
           join nl (render_subheads ''https://github.com/u/r/wiki/A'' ''A'' [(2, ''Intro'')]),
           join nl (render_subheads ''https://github.com/u/r/wiki/B'' ''B'' [])],
          [''Sidebar generated: _Sidebar.md''])"
  by code_simp

section \<open>Counting the markers of a summary\<close>

lemma ups_le_rise: "ups p ds \<le> rise p ds"
proof (induction ds arbitrary: p)
  case Nil
  show ?case by simp
next
  case (Cons d ds)
  from Cons.IH [of d] show ?case by (cases "p < d") simp_all
qed

lemma rise_eq_ups: "rise p ds = ups p ds \<longleftrightarrow> \<not> skips_level p ds"
proof (induction ds arbitrary: p)
  case Nil
  show ?case by simp
next
  case (Cons d ds)
  from ups_le_rise [of d ds] Cons.IH [of d] show ?case by auto
qed

lemma loop_counts:
  assumes "subheading_loop h es (p, spaces_of k, sh) = (p', sp', sh')"
  shows "opens sh' = opens sh + ups p (map fst es)
       \<and> closes sh' + p' = closes sh + p + rise p (map fst es)
       \<and> p' = last (p # map fst es)"
  using assms
proof (induction es arbitrary: p k sh)
  case Nil
  then show ?case by simp
next
  case (Cons e es)
  obtain d t where e: "e = (d, t)" by (cases e)
  consider "p < d" | "d < p" | "d = p" by linarith
  then show ?case
  proof cases
    case 1
    with Cons.prems e have "subheading_loop h es
        (d, spaces_of (d + 1), sh @ [spaces_of d @ ''<ul>'', list_item (spaces_of (d + 1)) h t])
        = (p', sp', sh')"
      by (simp add: step_up)
    from Cons.IH [OF this] 1 e show ?thesis by simp
  next
    case 2
    with Cons.prems e have "subheading_loop h es
        (d, spaces_of d,
         sh @ map (\<lambda>count. spaces_of count @ ''</ul>'') (range_down p d) @ [list_item (spaces_of d) h t])
        = (p', sp', sh')"
      by (simp add: step_down)
    from Cons.IH [OF this] 2 e show ?thesis by simp
  next
    case 3
    with Cons.prems e have "subheading_loop h es (d, spaces_of k, sh @ [list_item (spaces_of k) h t])
        = (p', sp', sh')"
      by (simp add: step_same)
    from Cons.IH [OF this] 3 e show ?thesis by simp
  qed
qed

text \<open>
  For subheadings of depth 2 and more, the lines of a summary hold one opening marker
  for the list and one for each step to a deeper level, and one closing marker for the
  list and one for each level such a step goes down. The markers are balanced exactly
  when no subheading lies more than one level below the one before it, the first one
  counted from level 2.
\<close>

lemma marker_counts:
  assumes "subs \<noteq> []" and "\<forall>e \<in> set subs. 2 \<le> fst e"
  shows "opens (render_subheads h m subs) = 1 + ups 2 (map fst subs)"
    and "closes (render_subheads h m subs) = 1 + rise 2 (map fst subs)"
proof -
  obtain p' sp' sh' where l:
    "subheading_loop h subs (2, spaces_of 2, [summary_line h m, ''  <ul>'']) = (p', sp', sh')"
    by (cases "subheading_loop h subs (2, spaces_of 2, [summary_line h m, ''  <ul>''])")
  from loop_counts [OF l] have o: "opens sh' = 1 + ups 2 (map fst subs)"
    and c: "closes sh' + p' = 2 + rise 2 (map fst subs)"
    and p: "p' = last (2 # map fst subs)" by simp_all
  from assms p have lp: "p' = fst (last subs)" by (simp add: last_map)
  from assms have "2 \<le> fst (last subs)" by simp
  with lp have p2: "2 \<le> p'" by simp
  have r: "render_subheads h m subs =
      sh' @ map (\<lambda>count. spaces_of (count - 1) @ ''</ul>'') (range_down p' 1) @ [''</details>'', nl]"
    using assms(1) l lp by (simp add: render_subheads_def)
  show "opens (render_subheads h m subs) = 1 + ups 2 (map fst subs)"
    by (simp add: r o)
  show "closes (render_subheads h m subs) = 1 + rise 2 (map fst subs)"
    using c p2 by (simp add: r)
qed

lemma balanced_iff:
  assumes "subs \<noteq> []" and "\<forall>e \<in> set subs. 2 \<le> fst e"
  shows "opens (render_subheads h m subs) \<le> closes (render_subheads h m subs)"
    and "opens (render_subheads h m subs) = closes (render_subheads h m subs)
         \<longleftrightarrow> \<not> skips_level 2 (map fst subs)"
  using marker_counts [OF assms, of h m] ups_le_rise [of 2 "map fst subs"]
    rise_eq_ups [of 2 "map fst subs"] by auto

section \<open>The summaries without a group\<close>

lemma write_ungrouped_eq:
  "write_ungrouped sl b =
     (case filter (\<lambda>s. group_name s = default_group_name s) sl of
        [] \<Rightarrow> []
      | u # us \<Rightarrow> (if b then [] else [''## '' @ group_name u @ nl])
                   @ map (\<lambda>s. join nl (subheads s)) (u # us))"
proof (induction sl arbitrary: b)
  case Nil
  show ?case by simp
next
  case (Cons s sl)
  show ?case
    by (simp add: Cons.IH split: list.splits)
qed

lemma get_group_for_summary_key:
  "get_group_for_summary ds n = Some g \<Longrightarrow> g \<in> set (map fst ds)"
  by (induction ds n rule: get_group_for_summary.induct) (auto split: if_splits)

lemma get_group_for_summary_None:
  "get_group_for_summary ds n = None \<longleftrightarrow> (\<forall>(g, members) \<in> set ds. n \<notin> set members)"
  by (induction ds n rule: get_group_for_summary.induct) auto

lemma set_group_default:
  assumes "''Ungrouped'' \<notin> set (map fst ds)"
    and "group_name s = ''Ungrouped''" and "default_group_name s = ''Ungrouped''"
  shows "group_name (set_group ds s) = default_group_name (set_group ds s)
         \<longleftrightarrow> get_group_for_summary ds (summary_name s) = None"
    and "get_group_for_summary ds (summary_name s) = None \<Longrightarrow> set_group ds s = s"
  using assms get_group_for_summary_key [of ds "summary_name s"]
  by (auto simp: set_group_def split: option.splits)

lemma filter_set_group:
  assumes "''Ungrouped'' \<notin> set (map fst ds)"
    and "\<forall>s \<in> set sl. group_name s = ''Ungrouped'' \<and> default_group_name s = ''Ungrouped''"
  shows "filter (\<lambda>s. group_name s = default_group_name s) (map (set_group ds) sl) =
         filter (\<lambda>s. get_group_for_summary ds (summary_name s) = None) sl"
  using assms(2)
proof (induction sl)
  case Nil
  show ?case by simp
next
  case (Cons s sl)
  then have s: "group_name s = ''Ungrouped''" "default_group_name s = ''Ungrouped''" by simp_all
  from set_group_default [OF assms(1) s] Cons show ?case by auto
qed

text \<open>
  When no group of the map has the default name, the last section is written exactly
  when a summary has a title that no group lists: its header once, then these summaries
  in their order in \<open>summary_list\<close>.
\<close>

lemma ungrouped_section:
  assumes "''Ungrouped'' \<notin> set (map fst ds)"
  shows "write_ungrouped (map (set_group ds) (summary_list env gl)) False =
     (case filter (\<lambda>s. get_group_for_summary ds (summary_name s) = None) (summary_list env gl) of
        [] \<Rightarrow> []
      | u # us \<Rightarrow> group_header ''Ungrouped'' # map (\<lambda>s. join nl (subheads s)) (u # us))"
proof -
  have b: "\<forall>s \<in> set (summary_list env gl).
      group_name s = ''Ungrouped'' \<and> default_group_name s = ''Ungrouped''"
    by (auto simp: summary_list_def summary_loop_filter build_summary_fields)
  let ?U = "filter (\<lambda>s. get_group_for_summary ds (summary_name s) = None) (summary_list env gl)"
  show ?thesis
  proof (cases ?U)
    case Nil
    then show ?thesis by (simp add: write_ungrouped_eq filter_set_group [OF assms b])
  next
    case (Cons u us)
    then have "u \<in> set ?U" by simp
    with b have "group_name u = ''Ungrouped''" by simp
    with Cons show ?thesis
      by (simp add: write_ungrouped_eq filter_set_group [OF assms b] group_header_def)
  qed
qed

section \<open>The title taken from the name of the file\<close>

lemma no_md_across_end:
  assumes "\<not> str_in ''.md'' xs"
  shows "replace_from ''.md'' [] (xs @ ''.md'') = xs"
  using assms
proof (induction xs)
  case Nil
  show ?case by simp
next
  case (Cons c cs)
  then have np: "\<not> prefix ''.md'' (c # cs)" and ns: "\<not> str_in ''.md'' cs" by simp_all
  have np': "\<not> prefix ''.md'' (c # (cs @ ''.md''))"
  proof (cases cs)
    case Nil
    then show ?thesis by simp
  next
    case (Cons d ds)
    show ?thesis
    proof (cases ds)
      case Nil
      with Cons show ?thesis by simp
    next
      case (Cons e es)
      with \<open>cs = d # ds\<close> np show ?thesis by simp
    qed
  qed
  have "replace_from ''.md'' [] (c # (cs @ ''.md'')) = c # replace_from ''.md'' [] (cs @ ''.md'')"
    by (simp only: replace_from.simps np' simp_thms if_False)
  with Cons.IH [OF ns] show ?case by (simp only: append_Cons)
qed

lemma basename_append:
  assumes "CHR ''/'' \<notin> set name"
  shows "basename (dir @ ''/'' @ name) = name"
proof -
  have "takeWhile (\<lambda>c. c \<noteq> CHR ''/'') (rev name @ CHR ''/'' # rev dir)
      = takeWhile (\<lambda>c. c \<noteq> CHR ''/'') (rev name)"
    by (rule takeWhile_tail) simp
  also have "\<dots> = rev name"
    using assms by auto
  finally show ?thesis by (simp add: basename_def)
qed

text \<open>
  For a path whose only \<open>.md\<close> is the extension, a file without a title line gets the
  name of the file without the extension as its title.
\<close>

lemma fallback_title_plain:
  assumes "\<not> str_in ''.md'' (dir @ ''/'' @ name)" and "CHR ''/'' \<notin> set name"
    and "\<forall>r \<in> set file. marker_count r \<noteq> 1"
  shows "fst (extract_headings (dir @ ''/'' @ name @ ''.md'') file) = name"
proof -
  have "fst (heading_lines file (None, [])) = None"
    using heading_lines_keep_title [OF assms(3), of "(None, [])"] by simp
  moreover have "replace (dir @ ''/'' @ name @ ''.md'') ''.md'' [] = dir @ ''/'' @ name"
    using no_md_across_end [OF assms(1)] by (simp add: replace_def)
  ultimately show ?thesis
    using basename_append [OF assms(2), of dir]
    by (auto simp: extract_headings_def split: prod.splits option.splits)
qed

end
